theory Spec2Isabelle
  imports Main "HOL-Library.Word"
begin

section \<open>Data model of toolkit/recordreplay/Thread.h\<close>

text \<open>
  \<^verbatim>\<open>size_t\<close> is an unsigned 64-bit integer: \<^verbatim>\<open>++\<close> and \<^verbatim>\<open>--\<close> wrap around.
  A failing \<^verbatim>\<open>MOZ_RELEASE_ASSERT\<close> aborts the process; it is the only error of
  the code modelled here.
\<close>

type_synonym size_t = "64 word"

datatype error = AssertionFailure

text \<open>
  Modelled from the spec: the class \<^verbatim>\<open>Stream\<close> of Recording.h and the lock of Lock.h
  are not part of the sources. Thread.h touches three things of a thread's event stream:
  the read side of \<^verbatim>\<open>mRecording->mStreamLock\<close> (a shared lock; its state here is the
  number of read acquisitions not yet released), the flag
  \<^verbatim>\<open>mInRecordingEventSection\<close>, and what \<^verbatim>\<open>AtEnd()\<close> reports (the stream "reports
  end-of-data").
\<close>

record Stream =
  mStreamLock :: int
  mInRecordingEventSection :: bool
  mAtEnd :: bool

definition ReadLock :: "int \<Rightarrow> int" where
  "ReadLock l = l + 1"

definition ReadUnlock :: "int \<Rightarrow> int" where
  "ReadUnlock l = l - 1"

definition AtEnd :: "Stream \<Rightarrow> bool" where
  "AtEnd s = mAtEnd s"

text \<open>
  The fields of \<^verbatim>\<open>class Thread\<close> that the inline member functions of Thread.h read
  or write. \<^verbatim>\<open>mEvents\<close> is a pointer that never changes; the stream it points to is
  kept inside the record.
\<close>

record Thread =
  mId :: size_t
  mPassThroughEvents :: bool
  mDisallowEvents :: size_t
  mDivergedFromRecording :: bool
  mShouldDivergeFromRecording :: bool
  mEvents :: Stream

definition MainThreadId :: size_t where
  "MainThreadId = 1"

definition MaxThreadId :: size_t where
  "MaxThreadId = 70"

subsection \<open>Member functions of Thread\<close>

definition Id :: "Thread \<Rightarrow> size_t" where
  "Id t = mId t"

definition Events :: "Thread \<Rightarrow> Stream" where
  "Events t = mEvents t"

definition IsMainThread :: "Thread \<Rightarrow> bool" where
  "IsMainThread t = (mId t = MainThreadId)"

definition SetPassThrough :: "Thread \<Rightarrow> bool \<Rightarrow> error + Thread" where
  "SetPassThrough t aPassThrough =
     (if mPassThroughEvents t = (\<not> aPassThrough)
      then Inr (t\<lparr>mPassThroughEvents := aPassThrough\<rparr>)
      else Inl AssertionFailure)"

definition PassThroughEvents :: "Thread \<Rightarrow> bool" where
  "PassThroughEvents t = mPassThroughEvents t"

definition BeginDisallowEvents :: "Thread \<Rightarrow> Thread" where
  "BeginDisallowEvents t = t\<lparr>mDisallowEvents := mDisallowEvents t + 1\<rparr>"

definition EndDisallowEvents :: "Thread \<Rightarrow> error + Thread" where
  "EndDisallowEvents t =
     (if mDisallowEvents t \<noteq> 0
      then Inr (t\<lparr>mDisallowEvents := mDisallowEvents t - 1\<rparr>)
      else Inl AssertionFailure)"

definition AreEventsDisallowed :: "Thread \<Rightarrow> bool" where
  "AreEventsDisallowed t = (mDisallowEvents t \<noteq> 0)"

definition DivergeFromRecording :: "Thread \<Rightarrow> Thread" where
  "DivergeFromRecording t = t\<lparr>mDivergedFromRecording := True\<rparr>"

definition HasDivergedFromRecording :: "Thread \<Rightarrow> bool" where
  "HasDivergedFromRecording t = mDivergedFromRecording t"

text \<open>
  \<^verbatim>\<open>MaybeDivergeFromRecording\<close> returns a value and may write the thread: the model
  returns the value and the thread after the call.
\<close>

definition MaybeDivergeFromRecording :: "Thread \<Rightarrow> bool \<times> Thread" where
  "MaybeDivergeFromRecording t =
     (let t' = (if mShouldDivergeFromRecording t
                then t\<lparr>mDivergedFromRecording := True\<rparr> else t)
      in (mDivergedFromRecording t', t'))"

definition CanAccessRecording :: "Thread \<Rightarrow> bool" where
  "CanAccessRecording t =
     (\<not> PassThroughEvents t \<and> \<not> AreEventsDisallowed t \<and> \<not> HasDivergedFromRecording t)"

text \<open>
  \<^verbatim>\<open>Thread::Current()\<close> is the record of the calling thread, or null on a system
  thread. Modelled from the spec: \<^verbatim>\<open>CurrentIsMainThread\<close> is only declared in
  Thread.h ("helper to test if this is the process main thread"); it holds when the
  calling thread has a record and that record is the main thread's.
\<close>

definition CurrentIsMainThread :: "Thread option \<Rightarrow> bool" where
  "CurrentIsMainThread cur = (case cur of None \<Rightarrow> False | Some c \<Rightarrow> IsMainThread c)"

subsection \<open>Wait and Notify\<close>

text \<open>
  Modelled from the spec: \<^verbatim>\<open>Thread::Wait\<close> and \<^verbatim>\<open>Thread::Notify\<close> are only
  declared in Thread.h. The spec and the comment above the declarations describe a
  counting signal: each \<^verbatim>\<open>Notify\<close> on a thread id makes that thread return from one
  call of \<^verbatim>\<open>Wait\<close>; a \<^verbatim>\<open>Notify\<close> that finds no pending \<^verbatim>\<open>Wait\<close> is remembered for
  the next one. The state is, for each thread id, the number of remembered notifies
  and whether the thread is blocked inside \<^verbatim>\<open>Wait\<close>.
\<close>

record WakeState =
  pending :: "size_t \<Rightarrow> nat"
  waiting :: "size_t \<Rightarrow> bool"

datatype WaitResult = Returned | Blocked

definition Notify :: "WakeState \<Rightarrow> size_t \<Rightarrow> WakeState" where
  "Notify w aId =
     (if waiting w aId
      then w\<lparr>waiting := (waiting w)(aId := False)\<rparr>
      else w\<lparr>pending := (pending w)(aId := Suc (pending w aId))\<rparr>)"

definition Wait :: "WakeState \<Rightarrow> size_t \<Rightarrow> WaitResult \<times> WakeState" where
  "Wait w aId =
     (if 0 < pending w aId
      then (Returned, w\<lparr>pending := (pending w)(aId := pending w aId - 1)\<rparr>)
      else (Blocked, w\<lparr>waiting := (waiting w)(aId := True)\<rparr>))"

text \<open>
  A schedule is a list of calls. A step gives the new state and the ids of the threads
  whose call of \<^verbatim>\<open>Wait\<close> returns in that step; a thread that is blocked inside
  \<^verbatim>\<open>Wait\<close> cannot call \<^verbatim>\<open>Wait\<close> again, so such a schedule is not a run (\<open>None\<close>).
\<close>

datatype Event = NotifyEv size_t | WaitEv size_t

definition no_wake :: WakeState where
  "no_wake = \<lparr>pending = (\<lambda>_. 0), waiting = (\<lambda>_. False)\<rparr>"

fun step :: "WakeState \<Rightarrow> Event \<Rightarrow> (WakeState \<times> size_t list) option" where
  "step w (NotifyEv i) = Some (Notify w i, if waiting w i then [i] else [])"
| "step w (WaitEv i) =
     (if waiting w i then None
      else Some (snd (Wait w i), if fst (Wait w i) = Returned then [i] else []))"

fun run :: "WakeState \<Rightarrow> Event list \<Rightarrow> (WakeState \<times> size_t list) option" where
  "run w [] = Some (w, [])"
| "run w (e # es) =
     (case step w e of
        None \<Rightarrow> None
      | Some (w', rs) \<Rightarrow>
          (case run w' es of
             None \<Rightarrow> None
           | Some (w'', rs') \<Rightarrow> Some (w'', rs @ rs')))"

text \<open>A thread blocked inside \<^verbatim>\<open>Wait\<close> has no remembered notify left.\<close>

definition absorbed :: "WakeState \<Rightarrow> bool" where
  "absorbed w \<longleftrightarrow> (\<forall>i. waiting w i \<longrightarrow> pending w i = 0)"

text \<open>
  \<^verbatim>\<open>SetShouldDivergeFromRecording\<close>: the first argument is \<^verbatim>\<open>Thread::Current()\<close>,
  the wake state is what \<^verbatim>\<open>Notify(mId)\<close> writes.
\<close>

definition SetShouldDivergeFromRecording ::
  "Thread option \<Rightarrow> Thread \<Rightarrow> WakeState \<Rightarrow> error + (Thread \<times> WakeState)" where
  "SetShouldDivergeFromRecording cur t w =
     (if CurrentIsMainThread cur
      then Inr (t\<lparr>mShouldDivergeFromRecording := True\<rparr>, Notify w (mId t))
      else Inl AssertionFailure)"

subsection \<open>Sequences of operations on one thread\<close>

text \<open>
  The member functions of Thread.h that write the record, as a datatype, so that
  statements can range over every operation and over every sequence of them. The
  operation \<open>OpSetShouldDivergeFromRecording\<close> carries the calling thread.
\<close>

datatype ThreadOp =
    OpSetPassThrough bool
  | OpBeginDisallowEvents
  | OpEndDisallowEvents
  | OpDivergeFromRecording
  | OpSetShouldDivergeFromRecording "Thread option"
  | OpMaybeDivergeFromRecording

fun apply_op :: "ThreadOp \<Rightarrow> Thread \<times> WakeState \<Rightarrow> error + (Thread \<times> WakeState)" where
  "apply_op (OpSetPassThrough b) (t, w) =
     (case SetPassThrough t b of Inl e \<Rightarrow> Inl e | Inr t' \<Rightarrow> Inr (t', w))"
| "apply_op OpBeginDisallowEvents (t, w) = Inr (BeginDisallowEvents t, w)"
| "apply_op OpEndDisallowEvents (t, w) =
     (case EndDisallowEvents t of Inl e \<Rightarrow> Inl e | Inr t' \<Rightarrow> Inr (t', w))"
| "apply_op OpDivergeFromRecording (t, w) = Inr (DivergeFromRecording t, w)"
| "apply_op (OpSetShouldDivergeFromRecording cur) (t, w) =
     SetShouldDivergeFromRecording cur t w"
| "apply_op OpMaybeDivergeFromRecording (t, w) = Inr (snd (MaybeDivergeFromRecording t), w)"

fun apply_ops :: "ThreadOp list \<Rightarrow> Thread \<times> WakeState \<Rightarrow> error + (Thread \<times> WakeState)" where
  "apply_ops [] s = Inr s"
| "apply_ops (x # xs) s =
     (case apply_op x s of Inl e \<Rightarrow> Inl e | Inr s' \<Rightarrow> apply_ops xs s')"

section \<open>RecordingEventSection\<close>

text \<open>
  \<^verbatim>\<open>IsRecording()\<close> and \<^verbatim>\<open>HitEndOfRecording()\<close> are declared elsewhere and are
  parameters here. \<^verbatim>\<open>HitEndOfRecording\<close> blocks the thread; while it is blocked other
  threads run, so what the thread finds after the \<open>k\<close>-th call is any function of the
  call's number and of the thread before the call.

  The loop of the constructor while replaying. \<open>None\<close> is a loop that never ends; the
  result is the thread after the loop and the number of calls of the handler.
\<close>

partial_function (option) replay_loop ::
  "(nat \<Rightarrow> Thread \<Rightarrow> Thread) \<Rightarrow> nat \<Rightarrow> Thread \<Rightarrow> (Thread \<times> nat) option" where
  "replay_loop HitEndOfRecording k t =
     (case MaybeDivergeFromRecording t of
        (diverged, t') \<Rightarrow>
          if \<not> diverged \<and> AtEnd (Events t')
          then replay_loop HitEndOfRecording (Suc k) (HitEndOfRecording k t')
          else Some (t', k))"

text \<open>
  The constructor. The section object is its member \<^verbatim>\<open>mThread\<close>, a pointer that may
  be null; the thread it points to is returned as it is after the call, with the
  number of calls of the handler.
\<close>

definition RecordingEventSection ::
  "bool \<Rightarrow> (nat \<Rightarrow> Thread \<Rightarrow> Thread) \<Rightarrow> Thread option \<Rightarrow>
   (error + (Thread option \<times> nat)) option" where
  "RecordingEventSection IsRecording HitEndOfRecording aThread =
     (case aThread of
        None \<Rightarrow> Some (Inr (None, 0))
      | Some t \<Rightarrow>
          if \<not> CanAccessRecording t then Some (Inr (Some t, 0))
          else if IsRecording then
            (if \<not> mInRecordingEventSection (Events t) then
               (let t1 = t\<lparr>mEvents := (Events t)
                            \<lparr>mStreamLock := ReadLock (mStreamLock (Events t))\<rparr>\<rparr>;
                    t2 = t1\<lparr>mEvents := (Events t1)\<lparr>mInRecordingEventSection := True\<rparr>\<rparr>
                in Some (Inr (Some t2, 0)))
             else Some (Inl AssertionFailure))
          else
            (case replay_loop HitEndOfRecording 0 t of
               None \<Rightarrow> None
             | Some (t', k) \<Rightarrow> Some (Inr (Some t', k))))"

definition RecordingEventSection_dtor :: "bool \<Rightarrow> Thread option \<Rightarrow> Thread option" where
  "RecordingEventSection_dtor IsRecording mThread =
     (case mThread of
        None \<Rightarrow> None
      | Some t \<Rightarrow>
          if \<not> CanAccessRecording t then Some t
          else if IsRecording then
            (let t1 = t\<lparr>mEvents := (Events t)
                         \<lparr>mStreamLock := ReadUnlock (mStreamLock (Events t))\<rparr>\<rparr>;
                 t2 = t1\<lparr>mEvents := (Events t1)\<lparr>mInRecordingEventSection := False\<rparr>\<rparr>
             in Some t2)
          else Some t)"

definition CanAccessEvents :: "Thread option \<Rightarrow> bool \<Rightarrow> error + bool" where
  "CanAccessEvents mThread aTolerateDisallowedEvents =
     (case mThread of
        None \<Rightarrow> Inr False
      | Some t \<Rightarrow>
          if PassThroughEvents t \<or> HasDivergedFromRecording t then Inr False
          else if aTolerateDisallowedEvents \<and> AreEventsDisallowed t then Inr False
          else if CanAccessRecording t then Inr True
          else Inl AssertionFailure)"

text \<open>
  The state of the thread before the \<open>j\<close>-th test of the loop's condition, when the
  loop starts at \<open>t\<close> with \<open>k\<close> calls of the handler already made, and the condition
  itself. They are used to state what the loop does.
\<close>

definition at_end_undiverged :: "Thread \<Rightarrow> bool" where
  "at_end_undiverged t =
     (\<not> fst (MaybeDivergeFromRecording t) \<and> AtEnd (Events (snd (MaybeDivergeFromRecording t))))"

fun loop_state :: "(nat \<Rightarrow> Thread \<Rightarrow> Thread) \<Rightarrow> nat \<Rightarrow> Thread \<Rightarrow> nat \<Rightarrow> Thread" where
  "loop_state h k t 0 = t"
| "loop_state h k t (Suc j) = loop_state h (Suc k) (h k (snd (MaybeDivergeFromRecording t))) j"

text \<open>The loop leaves at some test of its condition, after that many calls of the handler.\<close>

definition loop_exit :: "(nat \<Rightarrow> Thread \<Rightarrow> Thread) \<Rightarrow> nat \<Rightarrow> Thread \<Rightarrow> Thread \<times> nat \<Rightarrow> bool" where
  "loop_exit h k t r \<longleftrightarrow>
     (\<exists>n. (\<forall>j<n. at_end_undiverged (loop_state h k t j)) \<and>
          \<not> at_end_undiverged (loop_state h k t n) \<and>
          r = (snd (MaybeDivergeFromRecording (loop_state h k t n)), k + n))"

section \<open>Data model of toolkit/recordreplay/BufferStream.h\<close>

text \<open>
  \<^verbatim>\<open>mInput\<close> is a pointer into a buffer of bytes, or null; the model keeps the bytes
  from the pointer to the end of the buffer. A stream built by
  \<^verbatim>\<open>BufferStream(aInput, aInputSize)\<close> over a buffer of \<^verbatim>\<open>aInputSize\<close> bytes has
  \<open>length bytes = unat mInputSize\<close>, and \<^verbatim>\<open>ReadBytes\<close> keeps that. \<^verbatim>\<open>mOutput\<close> is a
  pointer to a vector of bytes, or null; the model keeps the vector's contents.
\<close>

type_synonym byte = "8 word"

record BufferStream =
  mOutput :: "byte list option"
  mInput :: "byte list option"
  mInputSize :: size_t

definition BufferStream_input :: "byte list option \<Rightarrow> size_t \<Rightarrow> BufferStream" where
  "BufferStream_input aInput aInputSize =
     \<lparr>mOutput = None, mInput = aInput, mInputSize = aInputSize\<rparr>"

definition BufferStream_output :: "byte list option \<Rightarrow> BufferStream" where
  "BufferStream_output aOutput = \<lparr>mOutput = aOutput, mInput = None, mInputSize = 0\<rparr>"

definition WriteBytes :: "BufferStream \<Rightarrow> byte list \<Rightarrow> error + BufferStream" where
  "WriteBytes s aData =
     (case mOutput s of
        None \<Rightarrow> Inl AssertionFailure
      | Some out \<Rightarrow> Inr (s\<lparr>mOutput := Some (out @ aData)\<rparr>))"

text \<open>
  \<^verbatim>\<open>ReadBytes\<close> returns the bytes that \<^verbatim>\<open>memcpy\<close> writes to \<^verbatim>\<open>aData\<close> (none when
  \<^verbatim>\<open>aSize\<close> is zero) and the stream after the call.
\<close>

definition ReadBytes :: "BufferStream \<Rightarrow> size_t \<Rightarrow> error + (byte list \<times> BufferStream)" where
  "ReadBytes s aSize =
     (if aSize \<noteq> 0 then
        (case mInput s of
           None \<Rightarrow> Inl AssertionFailure
         | Some bytes \<Rightarrow>
             if aSize \<le> mInputSize s
             then Inr (take (unat aSize) bytes,
                       s\<lparr>mInput := Some (drop (unat aSize) bytes),
                         mInputSize := mInputSize s - aSize\<rparr>)
             else Inl AssertionFailure)
      else Inr ([], s))"

definition IsEmpty :: "BufferStream \<Rightarrow> error + bool" where
  "IsEmpty s =
     (case mInput s of
        None \<Rightarrow> Inl AssertionFailure
      | Some bytes \<Rightarrow> Inr (mInputSize s = 0))"

section \<open>Concrete inputs\<close>

text \<open>
  A thread that records: id 2, no pass-through, events allowed, not diverged, its stream
  at its end, outside a section, the stream lock free.
\<close>

definition thread0 :: Thread where
  "thread0 = \<lparr>mId = 2, mPassThroughEvents = False, mDisallowEvents = 0,
     mDivergedFromRecording = False, mShouldDivergeFromRecording = False,
     mEvents = \<lparr>mStreamLock = 0, mInRecordingEventSection = False, mAtEnd = True\<rparr>\<rparr>"

text \<open>
  Three handlers: data arrives in the stream during the second call; the main thread
  asks the thread to diverge during the first call; nothing ever happens.
\<close>

definition data_arrives :: "nat \<Rightarrow> Thread \<Rightarrow> Thread" where
  "data_arrives k t = (if k = 1 then t\<lparr>mEvents := (mEvents t)\<lparr>mAtEnd := False\<rparr>\<rparr> else t)"

definition told_to_diverge :: "nat \<Rightarrow> Thread \<Rightarrow> Thread" where
  "told_to_diverge k t = t\<lparr>mShouldDivergeFromRecording := True\<rparr>"

definition nothing_happens :: "nat \<Rightarrow> Thread \<Rightarrow> Thread" where
  "nothing_happens k t = t"

text \<open>An input stream over a buffer of eight bytes.\<close>

definition stream8 :: BufferStream where
  "stream8 = BufferStream_input (Some [1, 2, 3, 4, 5, 6, 7, 8]) 8"

section \<open>Divergence gating\<close>

text \<open>
  C2. \<^verbatim>\<open>CanAccessRecording()\<close> returns true if and only if the thread is not in
  pass-through mode, its disallow-events counter is zero, and it has not diverged from
  the recording.
\<close>

theorem CanAccessRecording_iff:
  "CanAccessRecording t \<longleftrightarrow>
     \<not> mPassThroughEvents t \<and> mDisallowEvents t = 0 \<and> \<not> mDivergedFromRecording t"
  by (simp add: CanAccessRecording_def PassThroughEvents_def AreEventsDisallowed_def
      HasDivergedFromRecording_def)

text \<open>
  C3. \<^verbatim>\<open>MaybeDivergeFromRecording()\<close> sets \<^verbatim>\<open>mDivergedFromRecording\<close> exactly when
  \<^verbatim>\<open>mShouldDivergeFromRecording\<close> is set and leaves the thread unchanged otherwise; it
  returns the resulting value of \<^verbatim>\<open>mDivergedFromRecording\<close>; and it is the only
  operation that promotes the request into the flag: for every other operation, whether
  the operation fails and the value of \<^verbatim>\<open>mDivergedFromRecording\<close> after it do not
  depend on \<^verbatim>\<open>mShouldDivergeFromRecording\<close>.
\<close>

theorem MaybeDivergeFromRecording_promotes:
  "snd (MaybeDivergeFromRecording t) =
     (if mShouldDivergeFromRecording t then t\<lparr>mDivergedFromRecording := True\<rparr> else t) \<and>
   fst (MaybeDivergeFromRecording t) = mDivergedFromRecording (snd (MaybeDivergeFromRecording t)) \<and>
   (\<forall>x w b. x \<noteq> OpMaybeDivergeFromRecording \<longrightarrow>
      map_sum id (mDivergedFromRecording \<circ> fst) (apply_op x (t\<lparr>mShouldDivergeFromRecording := b\<rparr>, w)) =
      map_sum id (mDivergedFromRecording \<circ> fst) (apply_op x (t, w)))"
proof (intro conjI allI impI)
  fix x w b
  assume "x \<noteq> OpMaybeDivergeFromRecording"
  then show "map_sum id (mDivergedFromRecording \<circ> fst) (apply_op x (t\<lparr>mShouldDivergeFromRecording := b\<rparr>, w)) =
      map_sum id (mDivergedFromRecording \<circ> fst) (apply_op x (t, w))"
    by (cases x)
      (auto simp: SetPassThrough_def BeginDisallowEvents_def EndDisallowEvents_def
        DivergeFromRecording_def SetShouldDivergeFromRecording_def split: if_splits sum.splits)
qed (simp_all add: MaybeDivergeFromRecording_def)

theorem MaybeDivergeFromRecording_promotes_witness:
  "OpDivergeFromRecording \<noteq> OpMaybeDivergeFromRecording \<and>
   map_sum id (mDivergedFromRecording \<circ> fst)
     (apply_op OpDivergeFromRecording (thread0\<lparr>mShouldDivergeFromRecording := True\<rparr>, no_wake)) =
   map_sum id (mDivergedFromRecording \<circ> fst) (apply_op OpDivergeFromRecording (thread0, no_wake)) \<and>
   fst (MaybeDivergeFromRecording (thread0\<lparr>mShouldDivergeFromRecording := True\<rparr>)) \<and>
   \<not> fst (MaybeDivergeFromRecording thread0)"
proof -
  have ne: "OpDivergeFromRecording \<noteq> OpMaybeDivergeFromRecording" by simp
  note a = MaybeDivergeFromRecording_promotes [of thread0]
  note b = MaybeDivergeFromRecording_promotes [of "thread0\<lparr>mShouldDivergeFromRecording := True\<rparr>"]
  from a have a3: "map_sum id (mDivergedFromRecording \<circ> fst)
     (apply_op OpDivergeFromRecording (thread0\<lparr>mShouldDivergeFromRecording := True\<rparr>, no_wake)) =
   map_sum id (mDivergedFromRecording \<circ> fst) (apply_op OpDivergeFromRecording (thread0, no_wake))"
    using ne by blast
  from b have b2: "fst (MaybeDivergeFromRecording (thread0\<lparr>mShouldDivergeFromRecording := True\<rparr>))"
    by (simp add: thread0_def)
  from a have a2: "\<not> fst (MaybeDivergeFromRecording thread0)"
    by (simp add: thread0_def)
  from ne a3 b2 a2 show ?thesis by blast
qed

subsection \<open>The divergence flag is sticky\<close>

lemma apply_op_diverged:
  "apply_op x (t, w) = Inr (t', w') \<Longrightarrow> mDivergedFromRecording t \<Longrightarrow> mDivergedFromRecording t'"
  by (cases x)
    (auto simp: SetPassThrough_def BeginDisallowEvents_def EndDisallowEvents_def
      DivergeFromRecording_def SetShouldDivergeFromRecording_def MaybeDivergeFromRecording_def
      Let_def split: if_splits sum.splits)

lemma apply_ops_diverged:
  "apply_ops xs (t, w) = Inr (t', w') \<Longrightarrow> mDivergedFromRecording t \<Longrightarrow> mDivergedFromRecording t'"
proof (induction xs arbitrary: t w)
  case Nil
  then show ?case by simp
next
  case (Cons x xs)
  from Cons.prems(1) obtain t1 w1 where
    s1: "apply_op x (t, w) = Inr (t1, w1)" and s2: "apply_ops xs (t1, w1) = Inr (t', w')"
    by (auto split: sum.splits)
  from s1 Cons.prems(2) have "mDivergedFromRecording t1" by (rule apply_op_diverged)
  with s2 show ?case by (rule Cons.IH)
qed

lemma apply_ops_append:
  "apply_ops (xs @ ys) s = (case apply_ops xs s of Inl e \<Rightarrow> Inl e | Inr s' \<Rightarrow> apply_ops ys s')"
  by (induction xs arbitrary: s) (auto split: sum.splits)

text \<open>
  C4. For every sequence of operations on a thread (there is no rewind among them), once
  \<^verbatim>\<open>mDivergedFromRecording\<close> is observed true after a prefix of the sequence, it is
  true after every longer prefix; \<^verbatim>\<open>DivergeFromRecording\<close> sets it,
  \<^verbatim>\<open>MaybeDivergeFromRecording\<close> never clears it, and building or destroying a
  \<^verbatim>\<open>RecordingEventSection\<close> on a diverged thread leaves it set.
\<close>

theorem diverged_monotone:
  "(apply_ops xs s = Inr (t1, w1) \<and> mDivergedFromRecording t1 \<and>
    apply_ops (xs @ ys) s = Inr (t2, w2) \<longrightarrow> mDivergedFromRecording t2) \<and>
   mDivergedFromRecording (DivergeFromRecording t) \<and>
   (mDivergedFromRecording t \<longrightarrow> mDivergedFromRecording (snd (MaybeDivergeFromRecording t))) \<and>
   (mDivergedFromRecording t \<and> RecordingEventSection r h (Some t) = Some (Inr (Some t', n)) \<longrightarrow>
      mDivergedFromRecording t') \<and>
   (mDivergedFromRecording t \<and> RecordingEventSection_dtor r (Some t) = Some t' \<longrightarrow>
      mDivergedFromRecording t')"
proof (intro conjI impI)
  assume a: "apply_ops xs s = Inr (t1, w1) \<and> mDivergedFromRecording t1 \<and>
    apply_ops (xs @ ys) s = Inr (t2, w2)"
  then have "apply_ops ys (t1, w1) = Inr (t2, w2)"
    by (auto simp: apply_ops_append)
  with a show "mDivergedFromRecording t2"
    using apply_ops_diverged by blast
next
  show "mDivergedFromRecording (DivergeFromRecording t)"
    by (simp add: DivergeFromRecording_def)
next
  assume "mDivergedFromRecording t"
  then show "mDivergedFromRecording (snd (MaybeDivergeFromRecording t))"
    by (simp add: MaybeDivergeFromRecording_def)
next
  assume a: "mDivergedFromRecording t \<and>
    RecordingEventSection r h (Some t) = Some (Inr (Some t', n))"
  then have "\<not> CanAccessRecording t"
    by (simp add: CanAccessRecording_def HasDivergedFromRecording_def)
  with a show "mDivergedFromRecording t'"
    by (auto simp: RecordingEventSection_def)
next
  assume a: "mDivergedFromRecording t \<and> RecordingEventSection_dtor r (Some t) = Some t'"
  then have "\<not> CanAccessRecording t"
    by (simp add: CanAccessRecording_def HasDivergedFromRecording_def)
  with a show "mDivergedFromRecording t'"
    by (auto simp: RecordingEventSection_dtor_def)
qed

theorem diverged_monotone_witness:
  "apply_ops [OpBeginDisallowEvents, OpDivergeFromRecording] (thread0, no_wake) =
     Inr (thread0\<lparr>mDisallowEvents := 1, mDivergedFromRecording := True\<rparr>, no_wake) \<and>
   apply_ops ([OpBeginDisallowEvents, OpDivergeFromRecording] @
              [OpMaybeDivergeFromRecording, OpEndDisallowEvents, OpSetPassThrough True])
     (thread0, no_wake) =
     Inr (thread0\<lparr>mPassThroughEvents := True, mDivergedFromRecording := True\<rparr>, no_wake) \<and>
   mDivergedFromRecording (thread0\<lparr>mPassThroughEvents := True, mDivergedFromRecording := True\<rparr>) \<and>
   RecordingEventSection False nothing_happens (Some (DivergeFromRecording thread0)) =
     Some (Inr (Some (DivergeFromRecording thread0), 0)) \<and>
   RecordingEventSection_dtor True (Some (DivergeFromRecording thread0)) =
     Some (DivergeFromRecording thread0) \<and>
   mDivergedFromRecording (DivergeFromRecording thread0)"
proof -
  have h1: "apply_ops [OpBeginDisallowEvents, OpDivergeFromRecording] (thread0, no_wake) =
     Inr (thread0\<lparr>mDisallowEvents := 1, mDivergedFromRecording := True\<rparr>, no_wake)"
    by (simp add: thread0_def BeginDisallowEvents_def DivergeFromRecording_def)
  have h2: "mDivergedFromRecording (thread0\<lparr>mDisallowEvents := 1, mDivergedFromRecording := True\<rparr>)"
    by simp
  have h3: "apply_ops ([OpBeginDisallowEvents, OpDivergeFromRecording] @
              [OpMaybeDivergeFromRecording, OpEndDisallowEvents, OpSetPassThrough True])
     (thread0, no_wake) =
     Inr (thread0\<lparr>mPassThroughEvents := True, mDivergedFromRecording := True\<rparr>, no_wake)"
    by (simp add: thread0_def BeginDisallowEvents_def DivergeFromRecording_def
      MaybeDivergeFromRecording_def EndDisallowEvents_def SetPassThrough_def)
  have h4: "RecordingEventSection False nothing_happens (Some (DivergeFromRecording thread0)) =
     Some (Inr (Some (DivergeFromRecording thread0), 0))"
    by (simp add: RecordingEventSection_def CanAccessRecording_def HasDivergedFromRecording_def
        DivergeFromRecording_def)
  have h5: "RecordingEventSection_dtor True (Some (DivergeFromRecording thread0)) =
     Some (DivergeFromRecording thread0)"
    by (simp add: RecordingEventSection_dtor_def CanAccessRecording_def
        HasDivergedFromRecording_def DivergeFromRecording_def)
  note w = diverged_monotone [where xs = "[OpBeginDisallowEvents, OpDivergeFromRecording]"
      and s = "(thread0, no_wake)"
      and ?t1.0 = "thread0\<lparr>mDisallowEvents := 1, mDivergedFromRecording := True\<rparr>"
      and ?w1.0 = no_wake
      and ys = "[OpMaybeDivergeFromRecording, OpEndDisallowEvents, OpSetPassThrough True]"
      and ?t2.0 = "thread0\<lparr>mPassThroughEvents := True, mDivergedFromRecording := True\<rparr>"
      and ?w2.0 = no_wake and t = thread0]
  from w h1 h2 h3
  have r1: "mDivergedFromRecording (thread0\<lparr>mPassThroughEvents := True, mDivergedFromRecording := True\<rparr>)"
    by blast
  have h6: "mDivergedFromRecording (DivergeFromRecording thread0)"
    by (simp add: DivergeFromRecording_def)
  note w' = diverged_monotone [where t = "DivergeFromRecording thread0" and r = False
      and h = nothing_happens and t' = "DivergeFromRecording thread0" and n = 0]
  from w' h4 h6 have r2: "mDivergedFromRecording (DivergeFromRecording thread0)"
    by blast
  from h1 h3 r1 h4 h5 r2 show ?thesis by blast
qed

text \<open>
  C10. \<^verbatim>\<open>SetShouldDivergeFromRecording()\<close> may only be called on the main thread: a
  caller that is not the main thread (a system thread without a record, or a recorded
  thread of another id) hits the fatal assertion. On the main thread the call sets the
  thread's \<^verbatim>\<open>mShouldDivergeFromRecording\<close> and sends a \<^verbatim>\<open>Notify\<close> on the thread's
  id, so that the thread diverges at its next \<^verbatim>\<open>MaybeDivergeFromRecording\<close> and is
  woken if it was blocked in \<^verbatim>\<open>Wait\<close> (or returns from its next \<^verbatim>\<open>Wait\<close> at once).
\<close>

theorem SetShouldDivergeFromRecording_main_only:
  "(\<not> CurrentIsMainThread cur \<longrightarrow> SetShouldDivergeFromRecording cur t w = Inl AssertionFailure) \<and>
   (CurrentIsMainThread cur \<longrightarrow>
      SetShouldDivergeFromRecording cur t w =
        Inr (t\<lparr>mShouldDivergeFromRecording := True\<rparr>, Notify w (mId t)) \<and>
      fst (MaybeDivergeFromRecording (t\<lparr>mShouldDivergeFromRecording := True\<rparr>)) \<and>
      (if waiting w (mId t) then \<not> waiting (Notify w (mId t)) (mId t)
       else fst (Wait (Notify w (mId t)) (mId t)) = Returned)) \<and>
   (CurrentIsMainThread cur \<longleftrightarrow> (\<exists>c. cur = Some c \<and> mId c = MainThreadId))"
  by (auto simp: SetShouldDivergeFromRecording_def CurrentIsMainThread_def IsMainThread_def
      MaybeDivergeFromRecording_def Notify_def Wait_def split: option.splits)

theorem SetShouldDivergeFromRecording_main_only_witness:
  "\<not> CurrentIsMainThread (Some thread0) \<and>
   SetShouldDivergeFromRecording (Some thread0) thread0 no_wake = Inl AssertionFailure \<and>
   \<not> CurrentIsMainThread None \<and>
   SetShouldDivergeFromRecording None thread0 no_wake = Inl AssertionFailure \<and>
   CurrentIsMainThread (Some (thread0\<lparr>mId := 1\<rparr>)) \<and>
   SetShouldDivergeFromRecording (Some (thread0\<lparr>mId := 1\<rparr>)) thread0 no_wake =
     Inr (thread0\<lparr>mShouldDivergeFromRecording := True\<rparr>, Notify no_wake (mId thread0))"
proof -
  have h1: "\<not> CurrentIsMainThread (Some thread0)"
    by (simp add: CurrentIsMainThread_def IsMainThread_def MainThreadId_def thread0_def)
  have h2: "\<not> CurrentIsMainThread None"
    by (simp add: CurrentIsMainThread_def)
  have h3: "CurrentIsMainThread (Some (thread0\<lparr>mId := 1\<rparr>))"
    by (simp add: CurrentIsMainThread_def IsMainThread_def MainThreadId_def)
  from SetShouldDivergeFromRecording_main_only [of "Some thread0" thread0 no_wake]
    SetShouldDivergeFromRecording_main_only [of None thread0 no_wake]
    SetShouldDivergeFromRecording_main_only [of "Some (thread0\<lparr>mId := 1\<rparr>)" thread0 no_wake]
    h1 h2 h3
  show ?thesis by blast
qed

section \<open>The disallow-events counter\<close>

text \<open>
  The counter is a \<^verbatim>\<open>size_t\<close> that starts at zero and is written only by
  \<^verbatim>\<open>mDisallowEvents++\<close> and by the guarded \<^verbatim>\<open>mDisallowEvents--\<close>. An operation
  raises it by one at most, so after fewer than \<open>2 ^ 64 - 1\<close> operations it is below
  the largest \<^verbatim>\<open>size_t\<close>.
\<close>

lemma unat_succ_le: "unat (x + 1 :: size_t) \<le> Suc (unat x)"
  by (simp add: unat_word_ariths)

lemma unat_pred_le: "unat (x - 1 :: size_t) \<le> Suc (unat x)" if "x \<noteq> 0"
proof -
  from that have "unat (x - 1) = unat x - 1" by (simp add: unat_minus_one)
  then show ?thesis by simp
qed

lemma apply_op_counter:
  "apply_op x (t, w) = Inr (t', w') \<Longrightarrow> unat (mDisallowEvents t') \<le> Suc (unat (mDisallowEvents t))"
  by (cases x)
    (auto simp: SetPassThrough_def BeginDisallowEvents_def EndDisallowEvents_def
      DivergeFromRecording_def SetShouldDivergeFromRecording_def MaybeDivergeFromRecording_def
      Let_def unat_succ_le unat_pred_le split: if_splits sum.splits)

lemma apply_ops_counter:
  "apply_ops xs (t, w) = Inr (t', w') \<Longrightarrow>
   unat (mDisallowEvents t') \<le> unat (mDisallowEvents t) + length xs"
proof (induction xs arbitrary: t w)
  case Nil
  then show ?case by simp
next
  case (Cons x xs)
  from Cons.prems obtain t1 w1 where
    s1: "apply_op x (t, w) = Inr (t1, w1)" and s2: "apply_ops xs (t1, w1) = Inr (t', w')"
    by (auto split: sum.splits)
  from s1 have "unat (mDisallowEvents t1) \<le> Suc (unat (mDisallowEvents t))"
    by (rule apply_op_counter)
  moreover from s2 have "unat (mDisallowEvents t') \<le> unat (mDisallowEvents t1) + length xs"
    by (rule Cons.IH)
  ultimately show ?case by simp
qed

lemma counter_below_max:
  assumes "apply_ops xs (t, w) = Inr (t', w')"
    and "unat (mDisallowEvents t) + length xs < 2 ^ 64 - 1"
  shows "mDisallowEvents t' \<noteq> - 1"
proof
  assume "mDisallowEvents t' = - 1"
  moreover have "(- 1 :: size_t) = 18446744073709551615" by simp
  ultimately have "unat (mDisallowEvents t') = 2 ^ 64 - 1"
    by (simp only: unat_numeral) simp
  with apply_ops_counter [OF assms(1)] assms(2) show False by simp
qed

text \<open>
  C7. Events are disallowed exactly while the counter is greater than zero.
  \<^verbatim>\<open>BeginDisallowEvents\<close> followed by \<^verbatim>\<open>EndDisallowEvents\<close> leaves the counter, and
  the whole thread, unchanged: the counter is reentrant. This is for a counter below
  the largest \<^verbatim>\<open>size_t\<close>, which is every counter that nesting can reach; at that
  value the increment could not be represented and the pair ends in the assertion.
  \<^verbatim>\<open>EndDisallowEvents\<close> on a counter of zero is fatal: it neither wraps nor returns an
  error.
\<close>

theorem disallow_counter:
  "(AreEventsDisallowed t \<longleftrightarrow> 0 < mDisallowEvents t) \<and>
   (mDisallowEvents t \<noteq> - 1 \<longrightarrow> EndDisallowEvents (BeginDisallowEvents t) = Inr t) \<and>
   (mDisallowEvents t = - 1 \<longrightarrow> EndDisallowEvents (BeginDisallowEvents t) = Inl AssertionFailure) \<and>
   (mDisallowEvents t = 0 \<longrightarrow> EndDisallowEvents t = Inl AssertionFailure)"
proof (intro conjI impI)
  show "AreEventsDisallowed t \<longleftrightarrow> 0 < mDisallowEvents t"
    by (simp add: AreEventsDisallowed_def word_neq_0_conv)
next
  assume "mDisallowEvents t \<noteq> - 1"
  then have "mDisallowEvents t + 1 \<noteq> 0"
    by (metis add.commute add_cancel_right_right add_diff_cancel_left' diff_add_cancel eq_neg_iff_add_eq_0)
  then show "EndDisallowEvents (BeginDisallowEvents t) = Inr t"
    by (simp add: BeginDisallowEvents_def EndDisallowEvents_def)
next
  assume "mDisallowEvents t = - 1"
  then show "EndDisallowEvents (BeginDisallowEvents t) = Inl AssertionFailure"
    by (simp add: BeginDisallowEvents_def EndDisallowEvents_def)
next
  assume "mDisallowEvents t = 0"
  then show "EndDisallowEvents t = Inl AssertionFailure"
    by (simp add: EndDisallowEvents_def)
qed

theorem disallow_counter_witness:
  "mDisallowEvents (thread0\<lparr>mDisallowEvents := 3\<rparr>) \<noteq> - 1 \<and>
   EndDisallowEvents (BeginDisallowEvents (thread0\<lparr>mDisallowEvents := 3\<rparr>)) =
     Inr (thread0\<lparr>mDisallowEvents := 3\<rparr>) \<and>
   mDisallowEvents thread0 = 0 \<and> EndDisallowEvents thread0 = Inl AssertionFailure \<and>
   mDisallowEvents (thread0\<lparr>mDisallowEvents := - 1\<rparr>) = - 1 \<and>
   EndDisallowEvents (BeginDisallowEvents (thread0\<lparr>mDisallowEvents := - 1\<rparr>)) = Inl AssertionFailure"
proof -
  have h1: "mDisallowEvents (thread0\<lparr>mDisallowEvents := 3\<rparr>) \<noteq> - 1" by simp
  have h2: "mDisallowEvents thread0 = 0" by (simp add: thread0_def)
  have h3: "mDisallowEvents (thread0\<lparr>mDisallowEvents := - 1\<rparr>) = - 1" by simp
  from disallow_counter [of "thread0\<lparr>mDisallowEvents := 3\<rparr>"] disallow_counter [of thread0]
    disallow_counter [of "thread0\<lparr>mDisallowEvents := - 1\<rparr>"] h1 h2 h3
  show ?thesis by blast
qed

section \<open>Access to the events of a section\<close>

text \<open>
  C9. \<^verbatim>\<open>CanAccessEvents(aTolerateDisallowedEvents)\<close> returns false when the thread
  is pass-through or has diverged (and when the section has no thread), whatever the
  argument; with the argument true it returns false, without failing, when events are
  disallowed, and it never fails; and whenever it returns true the thread can access
  the recording.
\<close>

theorem CanAccessEvents_sound:
  "CanAccessEvents None b = Inr False \<and>
   (PassThroughEvents t \<or> HasDivergedFromRecording t \<longrightarrow> CanAccessEvents (Some t) b = Inr False) \<and>
   (AreEventsDisallowed t \<longrightarrow> CanAccessEvents (Some t) True = Inr False) \<and>
   CanAccessEvents (Some t) True \<noteq> Inl AssertionFailure \<and>
   (CanAccessEvents (Some t) b = Inr True \<longrightarrow> CanAccessRecording t)"
  by (auto simp: CanAccessEvents_def CanAccessRecording_def split: if_splits)

theorem CanAccessEvents_sound_witness:
  "PassThroughEvents (thread0\<lparr>mPassThroughEvents := True\<rparr>) \<and>
   CanAccessEvents (Some (thread0\<lparr>mPassThroughEvents := True\<rparr>)) False = Inr False \<and>
   AreEventsDisallowed (thread0\<lparr>mDisallowEvents := 1\<rparr>) \<and>
   CanAccessEvents (Some (thread0\<lparr>mDisallowEvents := 1\<rparr>)) True = Inr False \<and>
   CanAccessEvents (Some thread0) False = Inr True \<and> CanAccessRecording thread0"
proof -
  have h1: "PassThroughEvents (thread0\<lparr>mPassThroughEvents := True\<rparr>)"
    by (simp add: PassThroughEvents_def)
  have h2: "AreEventsDisallowed (thread0\<lparr>mDisallowEvents := 1\<rparr>)"
    by (simp add: AreEventsDisallowed_def)
  have h3: "CanAccessEvents (Some thread0) False = Inr True"
    by (simp add: CanAccessEvents_def thread0_def PassThroughEvents_def AreEventsDisallowed_def
        HasDivergedFromRecording_def CanAccessRecording_def)
  from CanAccessEvents_sound [of False "thread0\<lparr>mPassThroughEvents := True\<rparr>"]
    CanAccessEvents_sound [of True "thread0\<lparr>mDisallowEvents := 1\<rparr>"]
    CanAccessEvents_sound [of False thread0] h1 h2 h3
  show ?thesis by blast
qed

section \<open>The constructor of RecordingEventSection\<close>

lemma at_end_undiverged_iff:
  "at_end_undiverged t \<longleftrightarrow>
     \<not> mShouldDivergeFromRecording t \<and> \<not> mDivergedFromRecording t \<and> mAtEnd (mEvents t)"
  by (simp add: at_end_undiverged_def MaybeDivergeFromRecording_def AtEnd_def Events_def)

lemma replay_loop_unfold:
  "replay_loop h k t =
     (if at_end_undiverged t then replay_loop h (Suc k) (h k (snd (MaybeDivergeFromRecording t)))
      else Some (snd (MaybeDivergeFromRecording t), k))"
  unfolding at_end_undiverged_def
  by (subst replay_loop.simps) (simp add: case_prod_beta)

lemma replay_loop_returns:
  "\<forall>j<n. at_end_undiverged (loop_state h k t j) \<Longrightarrow> \<not> at_end_undiverged (loop_state h k t n) \<Longrightarrow>
   replay_loop h k t = Some (snd (MaybeDivergeFromRecording (loop_state h k t n)), k + n)"
proof (induction n arbitrary: k t)
  case 0
  then show ?case by (subst replay_loop_unfold) simp
next
  case (Suc n)
  let ?t = "h k (snd (MaybeDivergeFromRecording t))"
  from Suc.prems(1) have here: "at_end_undiverged t" by fastforce
  have "\<forall>j<n. at_end_undiverged (loop_state h (Suc k) ?t j)"
  proof (intro allI impI)
    fix j assume "j < n"
    then have "Suc j < Suc n" by simp
    with Suc.prems(1) have "at_end_undiverged (loop_state h k t (Suc j))" by blast
    then show "at_end_undiverged (loop_state h (Suc k) ?t j)" by simp
  qed
  moreover from Suc.prems(2) have "\<not> at_end_undiverged (loop_state h (Suc k) ?t n)" by simp
  ultimately have "replay_loop h (Suc k) ?t =
      Some (snd (MaybeDivergeFromRecording (loop_state h (Suc k) ?t n)), Suc k + n)"
    by (rule Suc.IH)
  with here show ?case by (subst replay_loop_unfold) simp
qed

lemma loop_exit_now:
  "\<not> at_end_undiverged t \<Longrightarrow> loop_exit h k t (snd (MaybeDivergeFromRecording t), k)"
  unfolding loop_exit_def by (rule exI [of _ 0]) simp

lemma loop_exit_later:
  assumes here: "at_end_undiverged t"
    and later: "loop_exit h (Suc k) (h k (snd (MaybeDivergeFromRecording t))) r"
  shows "loop_exit h k t r"
proof -
  let ?t = "h k (snd (MaybeDivergeFromRecording t))"
  from later obtain n where n: "\<forall>j<n. at_end_undiverged (loop_state h (Suc k) ?t j)"
      "\<not> at_end_undiverged (loop_state h (Suc k) ?t n)"
      "r = (snd (MaybeDivergeFromRecording (loop_state h (Suc k) ?t n)), Suc k + n)"
    unfolding loop_exit_def by blast
  have "\<forall>j<Suc n. at_end_undiverged (loop_state h k t j)"
  proof (intro allI impI)
    fix j assume "j < Suc n"
    then show "at_end_undiverged (loop_state h k t j)"
      using here n(1) by (cases j) simp_all
  qed
  moreover from n(2) have "\<not> at_end_undiverged (loop_state h k t (Suc n))" by simp
  moreover from n(3) have "r = (snd (MaybeDivergeFromRecording (loop_state h k t (Suc n))), k + Suc n)"
    by simp
  ultimately show ?thesis unfolding loop_exit_def by blast
qed

lemma replay_loop_Some:
  assumes "replay_loop h k t = Some r"
  shows "loop_exit h k t r"
proof (rule replay_loop.raw_induct [where P = loop_exit, OF _ assms])
  fix f :: "(nat \<Rightarrow> Thread \<Rightarrow> Thread) \<Rightarrow> nat \<Rightarrow> Thread \<Rightarrow> (Thread \<times> nat) option"
  fix h k t r
  assume IH: "\<And>h k t r. f h k t = Some r \<Longrightarrow> loop_exit h k t r"
    and eq: "(case MaybeDivergeFromRecording t of
                (diverged, t') \<Rightarrow>
                  if \<not> diverged \<and> AtEnd (Events t')
                  then f h (Suc k) (h k t')
                  else Some (t', k)) = Some r"
  show "loop_exit h k t r"
  proof (cases "at_end_undiverged t")
    case False
    with eq have "r = (snd (MaybeDivergeFromRecording t), k)"
      by (auto simp: at_end_undiverged_def case_prod_beta)
    with False show ?thesis by (simp add: loop_exit_now)
  next
    case True
    with eq have "f h (Suc k) (h k (snd (MaybeDivergeFromRecording t))) = Some r"
      by (simp add: at_end_undiverged_def case_prod_beta)
    then have "loop_exit h (Suc k) (h k (snd (MaybeDivergeFromRecording t))) r" by (rule IH)
    with True show ?thesis by (rule loop_exit_later)
  qed
qed

lemma replay_loop_None:
  assumes "\<forall>j. at_end_undiverged (loop_state h k t j)"
  shows "replay_loop h k t = None"
proof (cases "replay_loop h k t")
  case None
  then show ?thesis .
next
  case (Some r)
  then have "loop_exit h k t r" by (rule replay_loop_Some)
  then obtain n where "\<not> at_end_undiverged (loop_state h k t n)"
    unfolding loop_exit_def by blast
  with assms show ?thesis by blast
qed

lemma MaybeDiverge_exit:
  "\<not> at_end_undiverged t \<Longrightarrow>
   mDivergedFromRecording (snd (MaybeDivergeFromRecording t)) \<or>
   \<not> AtEnd (Events (snd (MaybeDivergeFromRecording t)))"
  by (auto simp: at_end_undiverged_def MaybeDivergeFromRecording_def Let_def split: if_splits)

lemma ctor_noop:
  "\<not> CanAccessRecording t \<Longrightarrow> RecordingEventSection r h (Some t) = Some (Inr (Some t, 0))"
  by (simp add: RecordingEventSection_def)

lemma ctor_null: "RecordingEventSection r h None = Some (Inr (None, 0))"
  by (simp add: RecordingEventSection_def)

lemma ctor_replaying:
  "CanAccessRecording t \<Longrightarrow>
   RecordingEventSection False h (Some t) =
     (case replay_loop h 0 t of None \<Rightarrow> None | Some (t', k) \<Rightarrow> Some (Inr (Some t', k)))"
  by (simp add: RecordingEventSection_def)

lemma ctor_returns:
  assumes can: "CanAccessRecording t"
    and "\<forall>j<n. at_end_undiverged (loop_state h 0 t j)"
    and "\<not> at_end_undiverged (loop_state h 0 t n)"
  shows "RecordingEventSection False h (Some t) =
           Some (Inr (Some (snd (MaybeDivergeFromRecording (loop_state h 0 t n))), n))"
proof -
  from assms(2,3)
  have "replay_loop h 0 t = Some (snd (MaybeDivergeFromRecording (loop_state h 0 t n)), 0 + n)"
    by (rule replay_loop_returns)
  with can show ?thesis by (simp add: ctor_replaying)
qed

lemma ctor_blocks:
  assumes can: "CanAccessRecording t" and "\<forall>j. at_end_undiverged (loop_state h 0 t j)"
  shows "RecordingEventSection False h (Some t) = None"
proof -
  from assms(2) have "replay_loop h 0 t = None" by (rule replay_loop_None)
  with can show ?thesis by (simp add: ctor_replaying)
qed

lemma ctor_returned:
  assumes can: "CanAccessRecording t"
    and ret: "RecordingEventSection False h (Some t) = Some (Inr (Some t', n))"
  shows "(\<forall>j<n. at_end_undiverged (loop_state h 0 t j)) \<and>
         \<not> at_end_undiverged (loop_state h 0 t n) \<and>
         t' = snd (MaybeDivergeFromRecording (loop_state h 0 t n)) \<and>
         (HasDivergedFromRecording t' \<or> \<not> AtEnd (Events t'))"
proof -
  from can ret have "replay_loop h 0 t = Some (t', n)"
    by (auto simp: ctor_replaying split: option.splits)
  then have "loop_exit h 0 t (t', n)" by (rule replay_loop_Some)
  then obtain m where m: "\<forall>j<m. at_end_undiverged (loop_state h 0 t j)"
      "\<not> at_end_undiverged (loop_state h 0 t m)"
      "(t', n) = (snd (MaybeDivergeFromRecording (loop_state h 0 t m)), 0 + m)"
    unfolding loop_exit_def by blast
  from m(3) have mn: "m = n" and t': "t' = snd (MaybeDivergeFromRecording (loop_state h 0 t n))"
    by simp_all
  from m(2) mn have "mDivergedFromRecording (snd (MaybeDivergeFromRecording (loop_state h 0 t n))) \<or>
      \<not> AtEnd (Events (snd (MaybeDivergeFromRecording (loop_state h 0 t n))))"
    by (simp add: MaybeDiverge_exit)
  with t' have "HasDivergedFromRecording t' \<or> \<not> AtEnd (Events t')"
    by (simp add: HasDivergedFromRecording_def)
  with m(1,2) mn t' show ?thesis by simp
qed

lemma ctor_replaying_no_abort:
  "CanAccessRecording t \<Longrightarrow> RecordingEventSection False h (Some t) \<noteq> Some (Inl AssertionFailure)"
  by (auto simp: ctor_replaying split: option.splits)

text \<open>
  C1. Constructing a \<^verbatim>\<open>RecordingEventSection\<close> is a no-op (the thread is unchanged
  and the handler is not called) when the thread is null or cannot access the
  recording. While replaying, for a thread that can access the recording and with any
  handler: the constructor calls \<^verbatim>\<open>HitEndOfRecording\<close> once for each test of its
  condition that finds the stream at its end and the thread not diverged (neither
  diverged nor asked to diverge); it returns at the first test that finds otherwise,
  after exactly that many calls, and then the thread has diverged or the stream has
  data; it never returns when every test finds the stream at its end and the thread
  not diverged; and it never fails an assertion.
\<close>

theorem RecordingEventSection_constructor:
  "RecordingEventSection r h None = Some (Inr (None, 0)) \<and>
   (\<not> CanAccessRecording t \<longrightarrow> RecordingEventSection r h (Some t) = Some (Inr (Some t, 0))) \<and>
   (CanAccessRecording t \<longrightarrow>
      (\<forall>n. (\<forall>j<n. at_end_undiverged (loop_state h 0 t j)) \<and>
           \<not> at_end_undiverged (loop_state h 0 t n) \<longrightarrow>
           RecordingEventSection False h (Some t) =
             Some (Inr (Some (snd (MaybeDivergeFromRecording (loop_state h 0 t n))), n))) \<and>
      ((\<forall>j. at_end_undiverged (loop_state h 0 t j)) \<longrightarrow>
           RecordingEventSection False h (Some t) = None) \<and>
      (\<forall>t' n. RecordingEventSection False h (Some t) = Some (Inr (Some t', n)) \<longrightarrow>
           (\<forall>j<n. at_end_undiverged (loop_state h 0 t j)) \<and>
           \<not> at_end_undiverged (loop_state h 0 t n) \<and>
           t' = snd (MaybeDivergeFromRecording (loop_state h 0 t n)) \<and>
           (HasDivergedFromRecording t' \<or> \<not> AtEnd (Events t'))) \<and>
      RecordingEventSection False h (Some t) \<noteq> Some (Inl AssertionFailure)) \<and>
   (at_end_undiverged t \<longleftrightarrow>
      \<not> mShouldDivergeFromRecording t \<and> \<not> HasDivergedFromRecording t \<and> AtEnd (Events t))"
proof -
  have a: "RecordingEventSection r h None = Some (Inr (None, 0))" by (rule ctor_null)
  have b: "\<not> CanAccessRecording t \<longrightarrow> RecordingEventSection r h (Some t) = Some (Inr (Some t, 0))"
    by (simp add: ctor_noop)
  have c: "CanAccessRecording t \<longrightarrow>
      (\<forall>n. (\<forall>j<n. at_end_undiverged (loop_state h 0 t j)) \<and>
           \<not> at_end_undiverged (loop_state h 0 t n) \<longrightarrow>
           RecordingEventSection False h (Some t) =
             Some (Inr (Some (snd (MaybeDivergeFromRecording (loop_state h 0 t n))), n)))"
    using ctor_returns by blast
  have d: "CanAccessRecording t \<longrightarrow> ((\<forall>j. at_end_undiverged (loop_state h 0 t j)) \<longrightarrow>
           RecordingEventSection False h (Some t) = None)"
    using ctor_blocks by blast
  have e: "CanAccessRecording t \<longrightarrow>
      (\<forall>t' n. RecordingEventSection False h (Some t) = Some (Inr (Some t', n)) \<longrightarrow>
           (\<forall>j<n. at_end_undiverged (loop_state h 0 t j)) \<and>
           \<not> at_end_undiverged (loop_state h 0 t n) \<and>
           t' = snd (MaybeDivergeFromRecording (loop_state h 0 t n)) \<and>
           (HasDivergedFromRecording t' \<or> \<not> AtEnd (Events t')))"
    using ctor_returned by blast
  have f: "CanAccessRecording t \<longrightarrow>
      RecordingEventSection False h (Some t) \<noteq> Some (Inl AssertionFailure)"
    by (simp add: ctor_replaying_no_abort)
  have g: "at_end_undiverged t \<longleftrightarrow>
      \<not> mShouldDivergeFromRecording t \<and> \<not> HasDivergedFromRecording t \<and> AtEnd (Events t)"
    by (simp add: at_end_undiverged_iff HasDivergedFromRecording_def AtEnd_def Events_def)
  from a b c d e f g show ?thesis by blast
qed

theorem RecordingEventSection_constructor_witness:
  "\<not> CanAccessRecording (thread0\<lparr>mPassThroughEvents := True\<rparr>) \<and>
   RecordingEventSection False nothing_happens (Some (thread0\<lparr>mPassThroughEvents := True\<rparr>)) =
     Some (Inr (Some (thread0\<lparr>mPassThroughEvents := True\<rparr>), 0)) \<and>
   CanAccessRecording thread0 \<and>
   RecordingEventSection False data_arrives (Some thread0) =
     Some (Inr (Some (thread0\<lparr>mEvents := (mEvents thread0)\<lparr>mAtEnd := False\<rparr>\<rparr>), 2)) \<and>
   RecordingEventSection False told_to_diverge (Some thread0) =
     Some (Inr (Some (thread0\<lparr>mDivergedFromRecording := True,
                               mShouldDivergeFromRecording := True\<rparr>), 1)) \<and>
   RecordingEventSection False nothing_happens (Some thread0) = None"
proof -
  have md0: "snd (MaybeDivergeFromRecording thread0) = thread0"
    by (simp add: MaybeDivergeFromRecording_def thread0_def)
  have blocked0: "at_end_undiverged thread0"
    by (simp add: at_end_undiverged_def MaybeDivergeFromRecording_def AtEnd_def Events_def
        thread0_def)
  have no: "\<not> CanAccessRecording (thread0\<lparr>mPassThroughEvents := True\<rparr>)"
    by (simp add: CanAccessRecording_def PassThroughEvents_def)
  have can: "CanAccessRecording thread0"
    by (simp add: CanAccessRecording_def PassThroughEvents_def AreEventsDisallowed_def
        HasDivergedFromRecording_def thread0_def)
  \<comment> \<open>data arrives during the second call of the handler\<close>
  have d1: "loop_state data_arrives 0 thread0 (Suc 0) = thread0"
    by (simp add: md0 data_arrives_def)
  have d2: "loop_state data_arrives 0 thread0 (Suc (Suc 0)) =
      thread0\<lparr>mEvents := (mEvents thread0)\<lparr>mAtEnd := False\<rparr>\<rparr>"
    by (simp add: md0 data_arrives_def)
  have dpre: "\<forall>j<2. at_end_undiverged (loop_state data_arrives 0 thread0 j)"
  proof (intro allI impI)
    fix j :: nat assume "j < 2"
    then have "j = 0 \<or> j = Suc 0" by arith
    then show "at_end_undiverged (loop_state data_arrives 0 thread0 j)"
      using blocked0 d1 by auto
  qed
  have dpost: "\<not> at_end_undiverged (loop_state data_arrives 0 thread0 2)"
    using d2 by (simp add: numeral_2_eq_2 at_end_undiverged_def MaybeDivergeFromRecording_def
        AtEnd_def Events_def thread0_def del: loop_state.simps)
  have dres: "snd (MaybeDivergeFromRecording (loop_state data_arrives 0 thread0 2)) =
      thread0\<lparr>mEvents := (mEvents thread0)\<lparr>mAtEnd := False\<rparr>\<rparr>"
    using d2 by (simp add: numeral_2_eq_2 MaybeDivergeFromRecording_def thread0_def
        del: loop_state.simps)
  \<comment> \<open>the main thread asks for divergence during the first call of the handler\<close>
  have t1: "loop_state told_to_diverge 0 thread0 1 =
      thread0\<lparr>mShouldDivergeFromRecording := True\<rparr>"
    by (simp add: md0 told_to_diverge_def)
  have tpre: "\<forall>j<1. at_end_undiverged (loop_state told_to_diverge 0 thread0 j)"
    using blocked0 by simp
  have tpost: "\<not> at_end_undiverged (loop_state told_to_diverge 0 thread0 1)"
    unfolding t1 by (simp add: at_end_undiverged_def MaybeDivergeFromRecording_def)
  have tres: "snd (MaybeDivergeFromRecording (loop_state told_to_diverge 0 thread0 1)) =
      thread0\<lparr>mDivergedFromRecording := True, mShouldDivergeFromRecording := True\<rparr>"
    unfolding t1 by (simp add: MaybeDivergeFromRecording_def thread0_def)
  \<comment> \<open>nothing ever happens\<close>
  have n1: "loop_state nothing_happens k thread0 j = thread0" for k j
    by (induction j arbitrary: k) (simp_all add: md0 nothing_happens_def)
  have npre: "\<forall>j. at_end_undiverged (loop_state nothing_happens 0 thread0 j)"
    using blocked0 by (simp add: n1)
  note w1 = RecordingEventSection_constructor
      [of False nothing_happens "thread0\<lparr>mPassThroughEvents := True\<rparr>"]
  note w2 = RecordingEventSection_constructor [of False data_arrives thread0]
  note w3 = RecordingEventSection_constructor [of False told_to_diverge thread0]
  note w4 = RecordingEventSection_constructor [of False nothing_happens thread0]
  from w1 no have r1:
    "RecordingEventSection False nothing_happens (Some (thread0\<lparr>mPassThroughEvents := True\<rparr>)) =
       Some (Inr (Some (thread0\<lparr>mPassThroughEvents := True\<rparr>), 0))"
    by blast
  from w2 can dpre dpost have "RecordingEventSection False data_arrives (Some thread0) =
      Some (Inr (Some (snd (MaybeDivergeFromRecording (loop_state data_arrives 0 thread0 2))), 2))"
    by blast
  with dres have r2: "RecordingEventSection False data_arrives (Some thread0) =
      Some (Inr (Some (thread0\<lparr>mEvents := (mEvents thread0)\<lparr>mAtEnd := False\<rparr>\<rparr>), 2))"
    by simp
  from w3 can tpre tpost have "RecordingEventSection False told_to_diverge (Some thread0) =
      Some (Inr (Some (snd (MaybeDivergeFromRecording (loop_state told_to_diverge 0 thread0 1))), 1))"
    by blast
  with tres have r3: "RecordingEventSection False told_to_diverge (Some thread0) =
      Some (Inr (Some (thread0\<lparr>mDivergedFromRecording := True,
                               mShouldDivergeFromRecording := True\<rparr>), 1))"
    by simp
  from w4 can npre have r4: "RecordingEventSection False nothing_happens (Some thread0) = None"
    by blast
  from no r1 can r2 r3 r4 show ?thesis by blast
qed

section \<open>The destructor of RecordingEventSection\<close>

lemma CanAccessRecording_mEvents:
  "CanAccessRecording (t\<lparr>mEvents := e\<rparr>) = CanAccessRecording t"
  by (simp add: CanAccessRecording_def PassThroughEvents_def AreEventsDisallowed_def
      HasDivergedFromRecording_def)

lemma ctor_recording:
  "CanAccessRecording t \<Longrightarrow>
   RecordingEventSection True h (Some t) =
     (if mInRecordingEventSection (mEvents t) then Some (Inl AssertionFailure)
      else Some (Inr (Some (t\<lparr>mEvents := (mEvents t)
             \<lparr>mStreamLock := mStreamLock (mEvents t) + 1, mInRecordingEventSection := True\<rparr>\<rparr>), 0)))"
  by (simp add: RecordingEventSection_def Events_def ReadLock_def)

lemma dtor_recording:
  "CanAccessRecording t \<Longrightarrow>
   RecordingEventSection_dtor True (Some t) =
     Some (t\<lparr>mEvents := (mEvents t)
             \<lparr>mStreamLock := mStreamLock (mEvents t) - 1, mInRecordingEventSection := False\<rparr>\<rparr>)"
  by (simp add: RecordingEventSection_dtor_def Events_def ReadUnlock_def)

lemma dtor_noop:
  "\<not> CanAccessRecording t \<Longrightarrow> RecordingEventSection_dtor r (Some t) = Some t"
  by (simp add: RecordingEventSection_dtor_def)

lemma dtor_replaying: "RecordingEventSection_dtor False (Some t) = Some t"
  by (simp add: RecordingEventSection_dtor_def)

lemma dtor_null: "RecordingEventSection_dtor r None = None"
  by (simp add: RecordingEventSection_dtor_def)

lemma dtor_after_ctor:
  assumes can: "CanAccessRecording t" and out: "\<not> mInRecordingEventSection (mEvents t)"
  shows "RecordingEventSection_dtor True
           (Some (t\<lparr>mEvents := (mEvents t)
              \<lparr>mStreamLock := mStreamLock (mEvents t) + 1, mInRecordingEventSection := True\<rparr>\<rparr>)) =
         Some t"
proof -
  let ?t1 = "t\<lparr>mEvents := (mEvents t)
              \<lparr>mStreamLock := mStreamLock (mEvents t) + 1, mInRecordingEventSection := True\<rparr>\<rparr>"
  from can have "CanAccessRecording ?t1" by (simp only: CanAccessRecording_mEvents)
  then have "RecordingEventSection_dtor True (Some ?t1) =
      Some (?t1\<lparr>mEvents := (mEvents ?t1)
             \<lparr>mStreamLock := mStreamLock (mEvents ?t1) - 1, mInRecordingEventSection := False\<rparr>\<rparr>)"
    by (rule dtor_recording)
  also from out have "?t1\<lparr>mEvents := (mEvents ?t1)
             \<lparr>mStreamLock := mStreamLock (mEvents ?t1) - 1, mInRecordingEventSection := False\<rparr>\<rparr> = t"
    by simp
  finally show ?thesis .
qed

text \<open>
  C5. While recording, for a thread that can access the recording and is not yet in a
  section, the constructor takes the read lock and sets
  \<^verbatim>\<open>mInRecordingEventSection\<close>, and destroying the section gives back the thread as
  it was before the construction: the read lock is released and the marker is clear
  again. (In a section already, the constructor fails its assertion and no section is
  built.) The destructor decides from the thread as it is when the section is
  destroyed: it releases the lock and clears the marker when the thread can access the
  recording, and does nothing when the thread has diverged, is pass-through or has
  events disallowed, or when the section has no thread.
\<close>

theorem RecordingEventSection_destructor_undoes:
  "(CanAccessRecording t \<and> \<not> mInRecordingEventSection (mEvents t) \<longrightarrow>
      RecordingEventSection True h (Some t) =
        Some (Inr (Some (t\<lparr>mEvents := (mEvents t)
          \<lparr>mStreamLock := mStreamLock (mEvents t) + 1, mInRecordingEventSection := True\<rparr>\<rparr>), 0)) \<and>
      RecordingEventSection_dtor True
        (Some (t\<lparr>mEvents := (mEvents t)
          \<lparr>mStreamLock := mStreamLock (mEvents t) + 1, mInRecordingEventSection := True\<rparr>\<rparr>)) =
        Some t) \<and>
   (CanAccessRecording t \<and> mInRecordingEventSection (mEvents t) \<longrightarrow>
      RecordingEventSection True h (Some t) = Some (Inl AssertionFailure)) \<and>
   (CanAccessRecording t \<longrightarrow>
      RecordingEventSection_dtor True (Some t) =
        Some (t\<lparr>mEvents := (mEvents t)
          \<lparr>mStreamLock := mStreamLock (mEvents t) - 1, mInRecordingEventSection := False\<rparr>\<rparr>)) \<and>
   (\<not> CanAccessRecording t \<longrightarrow> RecordingEventSection_dtor r (Some t) = Some t) \<and>
   RecordingEventSection_dtor r None = None"
  using dtor_after_ctor [of t] dtor_recording [of t] dtor_noop [of t r] dtor_null [of r]
    ctor_recording [of t h]
  by simp

theorem RecordingEventSection_destructor_undoes_witness:
  "CanAccessRecording thread0 \<and> \<not> mInRecordingEventSection (mEvents thread0) \<and>
   RecordingEventSection True nothing_happens (Some thread0) =
     Some (Inr (Some (thread0\<lparr>mEvents :=
       \<lparr>mStreamLock = 1, mInRecordingEventSection = True, mAtEnd = True\<rparr>\<rparr>), 0)) \<and>
   RecordingEventSection_dtor True (Some (thread0\<lparr>mEvents :=
       \<lparr>mStreamLock = 1, mInRecordingEventSection = True, mAtEnd = True\<rparr>\<rparr>)) = Some thread0 \<and>
   \<not> CanAccessRecording (DivergeFromRecording thread0) \<and>
   RecordingEventSection_dtor True (Some (DivergeFromRecording thread0)) =
     Some (DivergeFromRecording thread0)"
proof -
  have can: "CanAccessRecording thread0"
    by (simp add: CanAccessRecording_def PassThroughEvents_def AreEventsDisallowed_def
        HasDivergedFromRecording_def thread0_def)
  have out: "\<not> mInRecordingEventSection (mEvents thread0)"
    by (simp add: thread0_def)
  have no: "\<not> CanAccessRecording (DivergeFromRecording thread0)"
    by (simp add: CanAccessRecording_def HasDivergedFromRecording_def DivergeFromRecording_def)
  have t1: "thread0\<lparr>mEvents := (mEvents thread0)
          \<lparr>mStreamLock := mStreamLock (mEvents thread0) + 1, mInRecordingEventSection := True\<rparr>\<rparr> =
      thread0\<lparr>mEvents := \<lparr>mStreamLock = 1, mInRecordingEventSection = True, mAtEnd = True\<rparr>\<rparr>"
    by (simp add: thread0_def)
  note w1 = RecordingEventSection_destructor_undoes [of thread0 nothing_happens True]
  note w2 = RecordingEventSection_destructor_undoes
      [of "DivergeFromRecording thread0" nothing_happens True]
  from w1 can out have
    "RecordingEventSection True nothing_happens (Some thread0) =
        Some (Inr (Some (thread0\<lparr>mEvents := (mEvents thread0)
          \<lparr>mStreamLock := mStreamLock (mEvents thread0) + 1, mInRecordingEventSection := True\<rparr>\<rparr>), 0)) \<and>
      RecordingEventSection_dtor True
        (Some (thread0\<lparr>mEvents := (mEvents thread0)
          \<lparr>mStreamLock := mStreamLock (mEvents thread0) + 1, mInRecordingEventSection := True\<rparr>\<rparr>)) =
        Some thread0"
    by blast
  then have r1: "RecordingEventSection True nothing_happens (Some thread0) =
     Some (Inr (Some (thread0\<lparr>mEvents :=
       \<lparr>mStreamLock = 1, mInRecordingEventSection = True, mAtEnd = True\<rparr>\<rparr>), 0)) \<and>
   RecordingEventSection_dtor True (Some (thread0\<lparr>mEvents :=
       \<lparr>mStreamLock = 1, mInRecordingEventSection = True, mAtEnd = True\<rparr>\<rparr>)) = Some thread0"
    by (simp only: t1)
  from w2 no have r2: "RecordingEventSection_dtor True (Some (DivergeFromRecording thread0)) =
     Some (DivergeFromRecording thread0)"
    by blast
  from can out r1 no r2 show ?thesis by blast
qed

section \<open>Reading a BufferStream to its end\<close>

lemma ReadBytes_whole:
  assumes "mInput s = Some bytes" and "length bytes = unat (mInputSize s)"
  shows "ReadBytes s (mInputSize s) = Inr (bytes, s\<lparr>mInput := Some [], mInputSize := 0\<rparr>)"
proof (cases "mInputSize s = 0")
  case True
  with assms have "bytes = []" by simp
  with assms True have "s\<lparr>mInput := Some [], mInputSize := 0\<rparr> = s" by simp
  with True \<open>bytes = []\<close> show ?thesis by (simp add: ReadBytes_def)
next
  case False
  with assms show ?thesis by (simp add: ReadBytes_def)
qed

lemma ReadBytes_too_large:
  assumes "mInputSize s < aSize"
  shows "ReadBytes s aSize = Inl AssertionFailure"
proof -
  from assms have "aSize \<noteq> 0" by (metis word_not_simps(1))
  moreover from assms have "\<not> aSize \<le> mInputSize s" by simp
  ultimately show ?thesis by (simp add: ReadBytes_def split: option.splits)
qed

text \<open>
  C8. For every input stream (\<^verbatim>\<open>mInput\<close> is not null) with \<open>n\<close> bytes remaining,
  \<^verbatim>\<open>ReadBytes\<close> of exactly \<open>n\<close> bytes succeeds, copies those \<open>n\<close> bytes and leaves
  the stream empty: \<^verbatim>\<open>IsEmpty\<close> returns true and the remaining size is zero. For
  every stream, a \<^verbatim>\<open>ReadBytes\<close> of more than the remaining size fails an assertion.
\<close>

theorem ReadBytes_to_end:
  "(mInput s = Some bytes \<and> length bytes = unat (mInputSize s) \<longrightarrow>
      ReadBytes s (mInputSize s) = Inr (bytes, s\<lparr>mInput := Some [], mInputSize := 0\<rparr>) \<and>
      IsEmpty (s\<lparr>mInput := Some [], mInputSize := 0\<rparr>) = Inr True \<and>
      mInputSize (s\<lparr>mInput := Some [], mInputSize := 0\<rparr>) = 0) \<and>
   (mInputSize s < aSize \<longrightarrow> ReadBytes s aSize = Inl AssertionFailure)"
  using ReadBytes_whole ReadBytes_too_large by (simp add: IsEmpty_def)

theorem ReadBytes_to_end_witness:
  "mInput stream8 = Some [1, 2, 3, 4, 5, 6, 7, 8] \<and>
   length [1, 2, 3, 4, 5, 6, 7, 8 :: byte] = unat (mInputSize stream8) \<and>
   ReadBytes stream8 8 = Inr ([1, 2, 3, 4, 5, 6, 7, 8], BufferStream_input (Some []) 0) \<and>
   IsEmpty (BufferStream_input (Some []) 0) = Inr True \<and>
   mInputSize (BufferStream_input (Some []) 0) < 1 \<and>
   ReadBytes (BufferStream_input (Some []) 0) 1 = Inl AssertionFailure"
proof -
  have h1: "mInput stream8 = Some [1, 2, 3, 4, 5, 6, 7, 8]"
    by (simp add: stream8_def BufferStream_input_def)
  have h2: "length [1, 2, 3, 4, 5, 6, 7, 8 :: byte] = unat (mInputSize stream8)"
    by (simp add: stream8_def BufferStream_input_def)
  have h3: "mInputSize stream8 = 8"
    by (simp add: stream8_def BufferStream_input_def)
  have h4: "stream8\<lparr>mInput := Some [], mInputSize := 0\<rparr> = BufferStream_input (Some []) 0"
    by (simp add: stream8_def BufferStream_input_def)
  have h5: "mInputSize (BufferStream_input (Some []) 0) < 1"
    by (simp add: BufferStream_input_def)
  from ReadBytes_to_end [of stream8 "[1, 2, 3, 4, 5, 6, 7, 8]" 9]
    ReadBytes_to_end [of "BufferStream_input (Some []) 0" "[]" 1] h1 h2 h5
  have "ReadBytes stream8 (mInputSize stream8) =
          Inr ([1, 2, 3, 4, 5, 6, 7, 8], stream8\<lparr>mInput := Some [], mInputSize := 0\<rparr>) \<and>
        IsEmpty (stream8\<lparr>mInput := Some [], mInputSize := 0\<rparr>) = Inr True \<and>
        ReadBytes (BufferStream_input (Some []) 0) 1 = Inl AssertionFailure"
    by blast
  with h1 h2 h3 h4 h5 show ?thesis by simp
qed

section \<open>Wait and Notify match one to one\<close>

lemma step_NotifyEv_waiting:
  "waiting w i \<Longrightarrow> step w (NotifyEv i) = Some (w\<lparr>waiting := (waiting w)(i := False)\<rparr>, [i])"
  by (simp add: Notify_def)

lemma Wait_after_Notify:
  "\<not> waiting w i \<Longrightarrow> Wait (Notify w i) i = (Returned, w)"
  by (simp add: Notify_def Wait_def)

lemma Wait_after_wake:
  "waiting w i \<Longrightarrow> pending w i = 0 \<Longrightarrow> fst (Wait (Notify w i) i) = Blocked"
  by (simp add: Notify_def Wait_def)

lemma step_counts:
  assumes "step w e = Some (w', rs)" and "absorbed w"
  shows "absorbed w' \<and>
         count_list rs i + pending w' i = pending w i + (if e = NotifyEv i then 1 else 0) \<and>
         count_list rs i + (if waiting w' i then 1 else 0) =
           (if waiting w i then 1 else 0) + (if e = WaitEv i then 1 else 0)"
proof (cases e)
  case (NotifyEv j)
  with assms show ?thesis
    by (auto simp: Notify_def absorbed_def split: if_splits)
next
  case (WaitEv j)
  with assms show ?thesis
    by (auto simp: Wait_def absorbed_def split: if_splits)
qed

lemma run_counts:
  "run w evs = Some (w', rets) \<Longrightarrow> absorbed w \<Longrightarrow>
   absorbed w' \<and>
   count_list rets i + pending w' i = pending w i + count_list evs (NotifyEv i) \<and>
   count_list rets i + (if waiting w' i then 1 else 0) =
     (if waiting w i then 1 else 0) + count_list evs (WaitEv i)"
proof (induction evs arbitrary: w rets)
  case Nil
  then show ?case by simp
next
  case (Cons e es)
  from Cons.prems(1) obtain w1 rs rs' where
    s: "step w e = Some (w1, rs)" and r: "run w1 es = Some (w', rs')" and rets: "rets = rs @ rs'"
    by (auto split: option.splits prod.splits)
  note a = step_counts [OF s Cons.prems(2), of i]
  from a have "absorbed w1" by simp
  note b = Cons.IH [OF r this]
  from a b rets show ?case by (simp split: if_splits)
qed

lemma absorbed_no_wake: "absorbed no_wake"
  by (simp add: absorbed_def no_wake_def)

text \<open>
  C6. For every thread id: a \<^verbatim>\<open>Notify\<close> on a thread blocked in \<^verbatim>\<open>Wait\<close> makes
  that call return and leaves nothing behind (when nothing was remembered, the
  thread's next \<^verbatim>\<open>Wait\<close> blocks again); a \<^verbatim>\<open>Notify\<close> on a thread that is not
  waiting is remembered, and the thread's next \<^verbatim>\<open>Wait\<close> returns at once and
  consumes it. In every schedule from the initial state, the returns of \<^verbatim>\<open>Wait\<close> on
  the id plus the remembered notifies are the \<^verbatim>\<open>Notify\<close> calls on the id, so no
  \<^verbatim>\<open>Notify\<close> serves two calls of \<^verbatim>\<open>Wait\<close> and no call of \<^verbatim>\<open>Wait\<close> returns without
  its own \<^verbatim>\<open>Notify\<close>; the returns plus the call still blocked are the calls of
  \<^verbatim>\<open>Wait\<close>; and a thread is blocked only when nothing is remembered for it.
\<close>

theorem Wait_Notify_matching:
  "(waiting w i \<longrightarrow>
      step w (NotifyEv i) = Some (w\<lparr>waiting := (waiting w)(i := False)\<rparr>, [i]) \<and>
      (pending w i = 0 \<longrightarrow> fst (Wait (Notify w i) i) = Blocked)) \<and>
   (\<not> waiting w i \<longrightarrow>
      step w (NotifyEv i) = Some (Notify w i, []) \<and>
      pending (Notify w i) i = Suc (pending w i) \<and>
      Wait (Notify w i) i = (Returned, w)) \<and>
   (run no_wake evs = Some (w', rets) \<longrightarrow>
      count_list rets i + pending w' i = count_list evs (NotifyEv i) \<and>
      count_list rets i + (if waiting w' i then 1 else 0) = count_list evs (WaitEv i) \<and>
      count_list rets i \<le> count_list evs (NotifyEv i) \<and>
      (waiting w' i \<longrightarrow> pending w' i = 0))"
proof -
  have a: "waiting w i \<longrightarrow>
      step w (NotifyEv i) = Some (w\<lparr>waiting := (waiting w)(i := False)\<rparr>, [i]) \<and>
      (pending w i = 0 \<longrightarrow> fst (Wait (Notify w i) i) = Blocked)"
    using step_NotifyEv_waiting [of w i] Wait_after_wake [of w i] by blast
  have b: "\<not> waiting w i \<longrightarrow>
      step w (NotifyEv i) = Some (Notify w i, []) \<and>
      pending (Notify w i) i = Suc (pending w i) \<and>
      Wait (Notify w i) i = (Returned, w)"
    using Wait_after_Notify [of w i] by (simp add: Notify_def)
  have c: "run no_wake evs = Some (w', rets) \<longrightarrow>
      count_list rets i + pending w' i = count_list evs (NotifyEv i) \<and>
      count_list rets i + (if waiting w' i then 1 else 0) = count_list evs (WaitEv i) \<and>
      count_list rets i \<le> count_list evs (NotifyEv i) \<and>
      (waiting w' i \<longrightarrow> pending w' i = 0)"
  proof
    assume r: "run no_wake evs = Some (w', rets)"
    note k = run_counts [OF r absorbed_no_wake, of i]
    from k have 1: "count_list rets i + pending w' i = count_list evs (NotifyEv i)"
      by (simp add: no_wake_def)
    from k have 2: "count_list rets i + (if waiting w' i then 1 else 0) = count_list evs (WaitEv i)"
      by (simp add: no_wake_def)
    from k have 3: "waiting w' i \<longrightarrow> pending w' i = 0"
      by (simp add: absorbed_def)
    from 1 have 4: "count_list rets i \<le> count_list evs (NotifyEv i)" by arith
    from 1 2 3 4 show "count_list rets i + pending w' i = count_list evs (NotifyEv i) \<and>
      count_list rets i + (if waiting w' i then 1 else 0) = count_list evs (WaitEv i) \<and>
      count_list rets i \<le> count_list evs (NotifyEv i) \<and>
      (waiting w' i \<longrightarrow> pending w' i = 0)"
      by blast
  qed
  from a b c show ?thesis by blast
qed

theorem Wait_Notify_matching_witness:
  "run no_wake [WaitEv 2, NotifyEv 2, NotifyEv 2, NotifyEv 3, WaitEv 2, WaitEv 2] =
     Some (\<lparr>pending = (\<lambda>_. 0)(3 := Suc 0), waiting = (\<lambda>_. False)(2 := True)\<rparr>, [2, 2]) \<and>
   count_list [2, 2 :: size_t] 2 \<le>
     count_list [WaitEv 2, NotifyEv 2, NotifyEv 2, NotifyEv 3, WaitEv 2, WaitEv 2] (NotifyEv 2) \<and>
   waiting (snd (Wait no_wake 2)) 2 \<and>
   step (snd (Wait no_wake 2)) (NotifyEv 2) = Some (no_wake, [2]) \<and>
   \<not> waiting no_wake 2 \<and> Wait (Notify no_wake 2) 2 = (Returned, no_wake)"
proof -
  have r: "run no_wake [WaitEv 2, NotifyEv 2, NotifyEv 2, NotifyEv 3, WaitEv 2, WaitEv 2] =
     Some (\<lparr>pending = (\<lambda>_. 0)(3 := Suc 0), waiting = (\<lambda>_. False)(2 := True)\<rparr>, [2, 2])"
    by (simp add: no_wake_def Wait_def Notify_def fun_eq_iff)
  have h1: "waiting (snd (Wait no_wake 2)) 2"
    by (simp add: no_wake_def Wait_def)
  have h2: "(snd (Wait no_wake 2))\<lparr>waiting := (waiting (snd (Wait no_wake 2)))(2 := False)\<rparr> = no_wake"
    by (simp add: no_wake_def Wait_def fun_eq_iff)
  have h3: "\<not> waiting no_wake 2"
    by (simp add: no_wake_def)
  note w1 = Wait_Notify_matching [of "snd (Wait no_wake 2)" 2
      "[WaitEv 2, NotifyEv 2, NotifyEv 2, NotifyEv 3, WaitEv 2, WaitEv 2]"
      "\<lparr>pending = (\<lambda>_. 0)(3 := Suc 0), waiting = (\<lambda>_. False)(2 := True)\<rparr>" "[2, 2]"]
  note w2 = Wait_Notify_matching [of no_wake 2 "[]" no_wake "[]"]
  from w1 r have c: "count_list [2, 2 :: size_t] 2 \<le>
     count_list [WaitEv 2, NotifyEv 2, NotifyEv 2, NotifyEv 3, WaitEv 2, WaitEv 2] (NotifyEv 2)"
    by blast
  from w1 h1 have "step (snd (Wait no_wake 2)) (NotifyEv 2) =
      Some ((snd (Wait no_wake 2))\<lparr>waiting := (waiting (snd (Wait no_wake 2)))(2 := False)\<rparr>, [2])"
    by blast
  then have s: "step (snd (Wait no_wake 2)) (NotifyEv 2) = Some (no_wake, [2])"
    by (simp only: h2)
  from w2 h3 have n: "Wait (Notify no_wake 2) 2 = (Returned, no_wake)"
    by blast
  from r c h1 s h3 n show ?thesis by blast
qed

end
